theory Spec2Isabelle
  imports Complex_Main
begin

section \<open>Orthogonalisation of the overlap matrix and the task-vector gather (scf\_common.cpp)\<close>

text \<open>
  A shallow embedding of \<^verbatim>\<open>exachem::scf::gensqrtinv\<close>, \<^verbatim>\<open>gensqrtinv_atscf\<close> and
  \<^verbatim>\<open>gather_task_vectors\<close>, in the build without \<^verbatim>\<open>USE_SCALAPACK\<close>.

  Conventions of the embedding:
  \<^item> a \<^verbatim>\<open>double\<close> is a \<open>real\<close>: comparison, division, square root and product are the
    exact ones, so rounding, infinities and not-a-number are not represented;
  \<^item> \<^verbatim>\<open>int64_t\<close> variables are \<open>int\<close> (they hold counts between 0 and N); the C \<^verbatim>\<open>int\<close>
    counts of the gather are \<open>int\<close> reduced to 32 bits after every cast and addition;
  \<^item> a \<^verbatim>\<open>std::vector\<close> is a list and an iterator into it is an index, \<^verbatim>\<open>end()\<close> being
    the length;
  \<^item> a read through an iterator or index that is out of range has no defined value in
    C++: the model gives it the value \<open>Inl e\<close> and every \<^verbatim>\<open>double\<close> computed from it
    is \<open>Inl e\<close> too, while statements that do not use the value run as written;
  \<^item> the program runs as one process per rank; the model lists the per-rank values in
    ascending rank order, rank 0 (the coordinator) first.
\<close>

subsection \<open>Errors, iterators, checked reads\<close>

datatype error =
    EndIteratorDeref     \<comment> \<open>\<^verbatim>\<open>*it\<close> with \<^verbatim>\<open>it == v.end()\<close>\<close>
  | BackOfEmpty          \<comment> \<open>\<^verbatim>\<open>v.back()\<close> on an empty vector\<close>
  | IndexOutOfRange      \<comment> \<open>\<^verbatim>\<open>v[i]\<close> with \<^verbatim>\<open>i\<close> outside the vector\<close>
  | LengthError          \<comment> \<open>\<^verbatim>\<open>std::length_error\<close> thrown by \<^verbatim>\<open>resize\<close>\<close>
  | ErroneousGatherv     \<comment> \<open>counts or displacements that leave the receive buffer\<close>
  | ExpectsFailed        \<comment> \<open>a failed \<^verbatim>\<open>EXPECTS\<close>\<close>

text \<open>\<^verbatim>\<open>std::find_if(v.begin(), v.end(), p)\<close>, as the distance of the result from
  \<^verbatim>\<open>v.begin()\<close>: the first position whose element satisfies \<open>p\<close>, the length if none.\<close>

fun find_if :: "('a \<Rightarrow> bool) \<Rightarrow> 'a list \<Rightarrow> nat" where
  "find_if p [] = 0"
| "find_if p (x # xs) = (if p x then 0 else Suc (find_if p xs))"

definition deref :: "'a list \<Rightarrow> nat \<Rightarrow> error + 'a" where
  "deref v it = (if it < length v then Inr (v ! it) else Inl EndIteratorDeref)"

definition vector_back :: "'a list \<Rightarrow> error + 'a" where
  "vector_back v = (if v = [] then Inl BackOfEmpty else Inr (last v))"

text \<open>Division of two \<^verbatim>\<open>double\<close>s either of which may come from an undefined read.\<close>

definition fdiv :: "error + real \<Rightarrow> error + real \<Rightarrow> error + real" where
  "fdiv a b =
     (case a of
        Inl e \<Rightarrow> Inl e
      | Inr x \<Rightarrow> (case b of Inl e \<Rightarrow> Inl e | Inr y \<Rightarrow> Inr (x / y)))"

text \<open>Sequencing of steps that can fail: the first failure ends the run.\<close>

definition and_then :: "error + 'a \<Rightarrow> ('a \<Rightarrow> error + 'b) \<Rightarrow> error + 'b" where
  "and_then r f = (case r of Inl e \<Rightarrow> Inl e | Inr x \<Rightarrow> f x)"

text \<open>\<^verbatim>\<open>size_t(n)\<close> for an \<^verbatim>\<open>int64_t n\<close>: the value modulo \<open>2^64\<close>.\<close>

definition size_t :: "int \<Rightarrow> nat" where
  "size_t n = nat (n mod 2 ^ 64)"

subsection \<open>The linear-dependency filter (lines 52-53 and 153-179, again 269-270 and 284-310)\<close>

text \<open>What the filter prints on \<^verbatim>\<open>std::cout\<close> when it drops eigenvalues.\<close>

datatype diag =
    Found_linear_dependencies int
  | First_above_tol_lindep "error + real"
  | Deemed_linearly_dependent int
  | Dropped_eigenvalue int real

record vars =
  n_cond :: int
  n_illcond :: int
  condition_number :: real
  result_condition_number :: "error + real"
  printed :: "diag list"

text \<open>\<^verbatim>\<open>int64_t n_cond{}, n_illcond{}; double condition_number{}, result_condition_number{};\<close>\<close>

definition init_vars :: vars where
  "init_vars =
     \<lparr>n_cond = 0, n_illcond = 0, condition_number = 0, result_condition_number = Inr 0,
      printed = []\<rparr>"

text \<open>The block under \<^verbatim>\<open>if(world_rank == 0)\<close>: the position of the first eigenvalue
  \<open>\<ge> threshold\<close>, the quotient by the eigenvalue read there, the two counts, the
  warning. \<open>N\<close> is the length of \<^verbatim>\<open>eps\<close>, which is constructed as \<^verbatim>\<open>eps(N)\<close>. The only
  assignment to \<^verbatim>\<open>condition_number\<close> is in a comment, so the block leaves it alone.\<close>

definition first_above :: "real list \<Rightarrow> real \<Rightarrow> nat" where
  "first_above eps threshold = find_if (\<lambda>x. x \<ge> threshold) eps"

definition warning :: "real list \<Rightarrow> nat \<Rightarrow> int \<Rightarrow> diag list" where
  "warning eps first_above_thresh k =
     [Found_linear_dependencies k,
      First_above_tol_lindep (deref eps first_above_thresh),
      Deemed_linearly_dependent k]
     @ map (\<lambda>i. Dropped_eigenvalue (int i + 1) (eps ! i)) [0..<nat k]"

definition filter_block :: "real list \<Rightarrow> real \<Rightarrow> vars \<Rightarrow> vars" where
  "filter_block eps threshold v =
     (let N = int (length eps);
          first_above_thresh = first_above eps threshold;
          v1 = v\<lparr>result_condition_number := fdiv (vector_back eps) (deref eps first_above_thresh)\<rparr>;
          v2 = v1\<lparr>n_illcond := int first_above_thresh\<rparr>;
          v3 = v2\<lparr>n_cond := N - n_illcond v2\<rparr>
      in if n_illcond v3 > 0
         then v3\<lparr>printed := printed v3 @ warning eps first_above_thresh (n_illcond v3)\<rparr>
         else v3)"

subsection \<open>The broadcast of \<^verbatim>\<open>n_illcond\<close> (lines 181-182 and 312-313)\<close>

text \<open>The variables of rank \<open>world_rank\<close> when it reaches the broadcast: only rank 0 has run
  the filter block, every other rank still has the initial values.\<close>

definition before_broadcast :: "real list \<Rightarrow> real \<Rightarrow> nat \<Rightarrow> vars" where
  "before_broadcast eps threshold world_rank =
     (if world_rank = 0 then filter_block eps threshold init_vars else init_vars)"

text \<open>Modelled from the spec: \<^verbatim>\<open>ec.pg().broadcast(&n_illcond, 0)\<close> is a method of the
  process group, which is not part of these sources; by sections 4.2 and 6 of the
  specification it copies the coordinator's value to every process of the group.\<close>

fun pg_broadcast_n_illcond :: "vars list \<Rightarrow> vars list" where
  "pg_broadcast_n_illcond [] = []"
| "pg_broadcast_n_illcond (v0 # others) =
     v0 # map (\<lambda>v. v\<lparr>n_illcond := n_illcond v0\<rparr>) others"

text \<open>\<^verbatim>\<open>if(world_size > 1) ec.pg().broadcast(&n_illcond, 0); n_cond = N - n_illcond;\<close>
  on all ranks of a group of \<open>world_size\<close> processes.\<close>

definition after_broadcast :: "nat \<Rightarrow> real list \<Rightarrow> real \<Rightarrow> vars list" where
  "after_broadcast world_size eps threshold =
     (let N = int (length eps);
          vs = map (before_broadcast eps threshold) [0..<world_size];
          vs' = (if world_size > 1 then pg_broadcast_n_illcond vs else vs)
      in map (\<lambda>v. v\<lparr>n_cond := N - n_illcond v\<rparr>) vs')"

subsection \<open>Dense matrices\<close>

text \<open>The type \<^verbatim>\<open>Matrix\<close> is an Eigen matrix stored row by row (``X is row major'', line 329):
  entry \<open>(r, c)\<close> is at position \<open>r * cols + c\<close> of the buffer \<^verbatim>\<open>data()\<close>.\<close>

record matrix =
  rows :: nat
  cols :: nat
  data :: "real list"

definition coeff :: "matrix \<Rightarrow> nat \<Rightarrow> nat \<Rightarrow> real" where
  "coeff M r c = data M ! (r * cols M + c)"

definition matrix_of :: "nat \<Rightarrow> nat \<Rightarrow> (nat \<Rightarrow> nat \<Rightarrow> real) \<Rightarrow> matrix" where
  "matrix_of nr nc f =
     \<lparr>rows = nr, cols = nc, data = concat (map (\<lambda>r. map (f r) [0..<nc]) [0..<nr])\<rparr>"

text \<open>\<^verbatim>\<open>M.block(startRow, startCol, blockRows, blockCols)\<close> and \<^verbatim>\<open>M.transpose()\<close>, assigned
  to a fresh matrix.\<close>

definition block :: "matrix \<Rightarrow> nat \<Rightarrow> nat \<Rightarrow> nat \<Rightarrow> nat \<Rightarrow> matrix" where
  "block M startRow startCol blockRows blockCols =
     matrix_of blockRows blockCols (\<lambda>r c. coeff M (startRow + r) (startCol + c))"

definition transpose_matrix :: "matrix \<Rightarrow> matrix" where
  "transpose_matrix M = matrix_of (cols M) (rows M) (\<lambda>r c. coeff M c r)"

text \<open>\<^verbatim>\<open>M.col(c)\<close> and \<^verbatim>\<open>M.row(r)\<close>, as lists of entries.\<close>

definition col :: "matrix \<Rightarrow> nat \<Rightarrow> real list" where
  "col M c = map (\<lambda>r. coeff M r c) [0..<rows M]"

definition row :: "matrix \<Rightarrow> nat \<Rightarrow> real list" where
  "row M r = map (\<lambda>c. coeff M r c) [0..<cols M]"

text \<open>\<^verbatim>\<open>blas::scal(n, alpha, x, incx)\<close> with \<^verbatim>\<open>x = buffer + off\<close>: the BLAS routine multiplies
  the \<open>n\<close> entries \<open>x[0], x[incx], x[2 * incx], ...\<close> by \<open>alpha\<close>, in this order.\<close>

definition scal :: "nat \<Rightarrow> real \<Rightarrow> real list \<Rightarrow> nat \<Rightarrow> nat \<Rightarrow> real list" where
  "scal n alpha buffer off incx =
     fold (\<lambda>k x. x[off + k * incx := alpha * x ! (off + k * incx)]) [0..<n] buffer"

subsection \<open>\<^verbatim>\<open>gensqrtinv\<close> (lines 37-254, build without ScaLAPACK)\<close>

text \<open>The inputs of the model are the size of the process group, the matrix \<open>V\<close> and the
  vector \<^verbatim>\<open>eps\<close> as \<^verbatim>\<open>lapack::syevd\<close> leaves them on rank 0 (line 148), and the threshold.
  LAPACK writes the eigenvector of \<open>eps[j]\<close> to the positions \<open>j * N, ..., j * N + N - 1\<close> of
  \<^verbatim>\<open>V.data()\<close>, which is row \<open>j\<close> of the row-major \<open>V\<close>. The parameter \<^verbatim>\<open>symmetric\<close> is not
  used by the function.

  On rank 0, after the broadcast (lines 194-199, 223-232 and 246): \<^verbatim>\<open>epso\<close> holds
  \<open>1 / sqrt c\<close> for every eigenvalue \<open>c\<close> from the iterator \<^verbatim>\<open>first_above_thresh\<close> (set in the
  filter block) to the end, \<open>X\<close> is the transpose of the rows of \<open>V\<close> from \<^verbatim>\<open>n_illcond\<close> on,
  and the scheduler multiplies entry \<open>(mu, mu_o)\<close> of \<open>X\<close> by entry \<open>mu_o\<close> of \<^verbatim>\<open>epso\<close>.
  The result is the tensor \<^verbatim>\<open>ttensors.X_alpha\<close>, of \<open>N\<close> rows and \<^verbatim>\<open>sys_data.nbf\<close>
  columns.\<close>

definition X_alpha_of :: "matrix \<Rightarrow> real list \<Rightarrow> real \<Rightarrow> vars \<Rightarrow> matrix" where
  "X_alpha_of V eps threshold v =
     (let N = length eps;
          first_above_thresh = first_above eps threshold;
          epso = map (\<lambda>c. 1 / sqrt c) (drop first_above_thresh eps);
          eps_tamm = epso;
          V_cond = block V (nat (n_illcond v)) 0 (nat (int N - n_illcond v)) N;
          X = transpose_matrix V_cond;
          X_tmp = X
      in matrix_of N (nat (n_cond v)) (\<lambda>mu mu_o. coeff X_tmp mu mu_o * eps_tamm ! mu_o))"

record gensqrtinv_rank =
  returned :: "nat \<times> real \<times> (error + real)"
  sys_data_n_lindep :: int
  sys_data_nbf :: int
  cout :: "diag list"

definition gensqrtinv_return :: "vars \<Rightarrow> gensqrtinv_rank" where
  "gensqrtinv_return v =
     \<lparr>returned = (size_t (n_cond v), condition_number v, result_condition_number v),
      sys_data_n_lindep = n_illcond v,
      sys_data_nbf = n_cond v,
      cout = printed v\<rparr>"

text \<open>The tensor \<^verbatim>\<open>ttensors.X_alpha\<close> after the call and, for each rank, what the call
  returned, stored and printed there.\<close>

definition gensqrtinv :: "nat \<Rightarrow> matrix \<Rightarrow> real list \<Rightarrow> real \<Rightarrow> matrix \<times> gensqrtinv_rank list" where
  "gensqrtinv world_size V eps threshold =
     (let vs = after_broadcast world_size eps threshold;
          X_alpha = (case vs of
                       [] \<Rightarrow> \<lparr>rows = 0, cols = 0, data = []\<rparr>
                     | v0 # _ \<Rightarrow> X_alpha_of V eps threshold v0)
      in (X_alpha, map gensqrtinv_return vs))"

subsection \<open>\<^verbatim>\<open>gensqrtinv_atscf\<close> (lines 256-351)\<close>

text \<open>On rank 0 (lines 315-337): the same slice and transpose, then for each column \<open>i\<close> of
  \<open>X\<close> a call of \<^verbatim>\<open>blas::scal\<close> on the \<open>N\<close> entries starting at \<^verbatim>\<open>X.data() + i\<close> with stride
  \<^verbatim>\<open>n_cond\<close>. The read \<^verbatim>\<open>*(first_above_thresh + i)\<close> is inside \<^verbatim>\<open>eps\<close> because
  \<open>i < n_cond = N - n_illcond\<close>.\<close>

definition X_atscf_of :: "matrix \<Rightarrow> real list \<Rightarrow> real \<Rightarrow> vars \<Rightarrow> matrix" where
  "X_atscf_of V eps threshold v =
     (let N = length eps;
          first_above_thresh = first_above eps threshold;
          V_cond = block V (nat (n_illcond v)) 0 (nat (int N - n_illcond v)) N;
          X = transpose_matrix V_cond
      in fold (\<lambda>i X. let srt = sqrt (eps ! (first_above_thresh + i))
                      in X\<lparr>data := scal N (1 / srt) (data X) i (nat (n_cond v))\<rparr>)
              [0..<nat (n_cond v)] X)"

text \<open>Rank 0 copies \<open>X\<close> into the tensor \<^verbatim>\<open>x_tamm\<close> (line 344) and, after the barrier, every
  rank reads the tensor back into its own \<open>X\<close> (line 347). The result lists, for each
  rank, the tuple the call returns there.\<close>

definition gensqrtinv_atscf ::
  "nat \<Rightarrow> matrix \<Rightarrow> real list \<Rightarrow> real \<Rightarrow> (matrix \<times> nat \<times> real \<times> (error + real)) list" where
  "gensqrtinv_atscf world_size V eps threshold =
     (let vs = after_broadcast world_size eps threshold;
          x_tamm = (case vs of
                      [] \<Rightarrow> \<lparr>rows = 0, cols = 0, data = []\<rparr>
                    | v0 # _ \<Rightarrow> X_atscf_of V eps threshold v0)
      in map (\<lambda>v. (x_tamm, size_t (n_cond v), condition_number v, result_condition_number v)) vs)"

subsection \<open>\<^verbatim>\<open>gather_task_vectors\<close> (lines 353-402)\<close>

text \<open>A C \<^verbatim>\<open>int\<close> is an \<open>int\<close> between \<open>- 2^31\<close> and \<open>2^31 - 1\<close>. The cast \<^verbatim>\<open>(int) v.size()\<close>
  and the sum of two \<^verbatim>\<open>int\<close>s keep the low 32 bits.\<close>

definition wrap32 :: "int \<Rightarrow> int" where
  "wrap32 x = (x + 2 ^ 31) mod 2 ^ 32 - 2 ^ 31"

definition int_of_size :: "nat \<Rightarrow> int" where
  "int_of_size n = wrap32 (int n)"

definition int_add :: "int \<Rightarrow> int \<Rightarrow> int" where
  "int_add a b = wrap32 (a + b)"

text \<open>Modelled from the spec: \<^verbatim>\<open>ec.pg().gather(&x, recv, 0)\<close> is a method of the process
  group, which is not part of these sources; by section 4.4 of the specification every
  process reports its value to the coordinator. \<open>sent\<close> lists the values in rank order;
  on other ranks the receive buffer is left as it is.\<close>

definition pg_gather :: "nat \<Rightarrow> int list \<Rightarrow> int list \<Rightarrow> int list" where
  "pg_gather rank sent recv = (if rank = 0 then sent else recv)"

text \<open>The loop of lines 377-381, for one of the three vectors.\<close>

definition displacements :: "nat \<Rightarrow> int list \<Rightarrow> int list" where
  "displacements nranks count =
     fold (\<lambda>i disps. disps[i := (if i > 0 then int_add (disps ! (i - 1)) (count ! (i - 1)) else 0)])
          [0..<nranks] (replicate nranks 0)"

text \<open>The exclusive prefix sum of the specification (section 4.4, step 2), starting from
  \<open>a\<close>: entry \<open>i\<close> is \<open>a\<close> plus the sum of the entries before \<open>i\<close>. It is what the loop is
  compared with.\<close>

fun exclusive_prefix_sum :: "int \<Rightarrow> int list \<Rightarrow> int list" where
  "exclusive_prefix_sum a [] = []"
| "exclusive_prefix_sum a (c # cs) = a # exclusive_prefix_sum (a + c) cs"

text \<open>\<^verbatim>\<open>v.resize(n)\<close> on an empty \<^verbatim>\<open>std::vector<int>\<close> with an \<^verbatim>\<open>int n\<close>: the conversion to
  \<^verbatim>\<open>size_t\<close> sends a negative \<open>n\<close> above \<open>2^63\<close>, past \<^verbatim>\<open>max_size()\<close>, and \<^verbatim>\<open>resize\<close> throws;
  otherwise the vector has \<open>n\<close> zeros.\<close>

definition resize :: "int \<Rightarrow> error + int list" where
  "resize n = (if n < 0 then Inl LengthError else Inr (replicate (nat n) 0))"

definition total_size :: "nat \<Rightarrow> int list \<Rightarrow> int list \<Rightarrow> error + int" where
  "total_size nranks disps count =
     (if nranks = 0 then Inl IndexOutOfRange
      else Inr (int_add (disps ! (nranks - 1)) (count ! (nranks - 1))))"

definition allocate_at_root :: "nat \<Rightarrow> nat \<Rightarrow> int list \<Rightarrow> int list \<Rightarrow> error + int list" where
  "allocate_at_root rank nranks disps count =
     (if rank = 0 then and_then (total_size nranks disps count) resize else Inr [])"

text \<open>Modelled from the spec: \<^verbatim>\<open>ec.pg().gatherv(send, n, recv, counts, disps, 0)\<close> is a method
  of the process group, which is not part of these sources; by section 4.4 of the
  specification it is a variable-length gather into the coordinator's buffer at the given
  displacements: the coordinator receives \<open>counts[r]\<close> elements of the vector of rank \<open>r\<close>
  at position \<open>disps[r]\<close>. Counts and displacements that do not fit the buffers are
  erroneous. On other ranks the receive buffer is left as it is.\<close>

definition receive_at :: "int list \<Rightarrow> int \<Rightarrow> int \<Rightarrow> int list \<Rightarrow> error + int list" where
  "receive_at sendbuf count disp recvbuf =
     (if count < 0 \<or> disp < 0 \<or> length recvbuf < nat disp + nat count \<or> length sendbuf < nat count
      then Inl ErroneousGatherv
      else Inr (take (nat disp) recvbuf @ take (nat count) sendbuf
                @ drop (nat disp + nat count) recvbuf))"

text \<open>Modelled from the spec: the receiving side of \<^verbatim>\<open>gatherv\<close> on the coordinator, one
  contribution after the other in ascending rank order.\<close>

fun gatherv_at_root :: "(int list \<times> int \<times> int) list \<Rightarrow> int list \<Rightarrow> error + int list" where
  "gatherv_at_root [] recvbuf = Inr recvbuf"
| "gatherv_at_root ((sendbuf, count, disp) # rest) recvbuf =
     and_then (receive_at sendbuf count disp recvbuf) (gatherv_at_root rest)"

text \<open>Modelled from the spec: \<^verbatim>\<open>gatherv\<close> as seen from rank \<open>rank\<close>; \<open>sendbufs\<close> lists the
  vectors of all ranks, and only the coordinator's receive buffer changes.\<close>

definition pg_gatherv ::
  "nat \<Rightarrow> int list list \<Rightarrow> int list \<Rightarrow> int list \<Rightarrow> int list \<Rightarrow> error + int list" where
  "pg_gatherv rank sendbufs recvbuf counts disps =
     (if rank = 0 then gatherv_at_root (zip sendbufs (zip counts disps)) recvbuf
      else Inr recvbuf)"

text \<open>Modelled from the spec: \<^verbatim>\<open>EXPECTS\<close> is a macro that is not part of these sources; by
  section 4.4 of the specification the condition is checked and a violation is fatal.\<close>

definition EXPECTS :: "bool \<Rightarrow> error + unit" where
  "EXPECTS cond = (if cond then Inr () else Inl ExpectsFailed)"

text \<open>The call on rank \<open>rank\<close> of a group of \<open>length locals\<close> processes, where
  \<open>locals ! r\<close> holds the three vectors \<^verbatim>\<open>(s1vec, s2vec, ntask_vec)\<close> passed on rank \<open>r\<close>.
  \<open>gathered\<close> is the state before the two \<^verbatim>\<open>EXPECTS\<close> (lines 357-397): the three
  vectors \<^verbatim>\<open>(s1_all, s2_all, ntasks_all)\<close>.\<close>

type_synonym task_vectors = "int list \<times> int list \<times> int list"

definition gathered :: "nat \<Rightarrow> task_vectors list \<Rightarrow> error + task_vectors" where
  "gathered rank locals =
     (let nranks = length locals;
          s1vecs = map fst locals;
          s2vecs = map (fst \<circ> snd) locals;
          ntask_vecs = map (snd \<circ> snd) locals;
          s1_count = pg_gather rank (map (int_of_size \<circ> length) s1vecs) (replicate nranks 0);
          s2_count = pg_gather rank (map (int_of_size \<circ> length) s2vecs) (replicate nranks 0);
          nt_count = pg_gather rank (map (int_of_size \<circ> length) ntask_vecs) (replicate nranks 0);
          disps_s1 = displacements nranks s1_count;
          disps_s2 = displacements nranks s2_count;
          disps_nt = displacements nranks nt_count
      in and_then (allocate_at_root rank nranks disps_s1 s1_count) (\<lambda>s1_all0.
         and_then (allocate_at_root rank nranks disps_s2 s2_count) (\<lambda>s2_all0.
         and_then (allocate_at_root rank nranks disps_nt nt_count) (\<lambda>ntasks_all0.
         and_then (pg_gatherv rank s1vecs s1_all0 s1_count disps_s1) (\<lambda>s1_all.
         and_then (pg_gatherv rank s2vecs s2_all0 s2_count disps_s2) (\<lambda>s2_all.
         and_then (pg_gatherv rank ntask_vecs ntasks_all0 nt_count disps_nt) (\<lambda>ntasks_all.
         Inr (s1_all, s2_all, ntasks_all))))))))"

definition gather_task_vectors :: "nat \<Rightarrow> task_vectors list \<Rightarrow> error + task_vectors" where
  "gather_task_vectors rank locals =
     and_then (gathered rank locals) (\<lambda>(s1_all, s2_all, ntasks_all).
     and_then (EXPECTS (length s1_all = length s2_all)) (\<lambda>_.
     and_then (EXPECTS (length s1_all = length ntasks_all)) (\<lambda>_.
     Inr (s1_all, s2_all, ntasks_all))))"

section \<open>Properties\<close>

subsection \<open>The scan\<close>

lemma find_if_le: "find_if p xs \<le> length xs"
  by (induction xs) auto

lemma find_if_less_iff: "find_if p xs < length xs \<longleftrightarrow> (\<exists>x\<in>set xs. p x)"
  by (induction xs) auto

lemma find_if_holds: "find_if p xs < length xs \<Longrightarrow> p (xs ! find_if p xs)"
  by (induction xs) (auto split: if_splits)

lemma find_if_before: "j < find_if p xs \<Longrightarrow> \<not> p (xs ! j)"
proof (induction xs arbitrary: j)
  case Nil
  then show ?case by simp
next
  case (Cons x xs)
  then show ?case by (cases j) (auto split: if_splits)
qed

subsection \<open>The filter block and the broadcast\<close>

lemma first_above_le: "first_above eps t \<le> length eps"
  by (simp add: first_above_def find_if_le)

lemma n_illcond_filter_block: "n_illcond (filter_block eps t v) = int (first_above eps t)"
  by (simp add: filter_block_def Let_def)

lemma n_cond_filter_block:
  "n_cond (filter_block eps t v) = int (length eps) - int (first_above eps t)"
  by (simp add: filter_block_def Let_def)

lemma condition_number_filter_block:
  "condition_number (filter_block eps t v) = condition_number v"
  by (simp add: filter_block_def Let_def)

lemma result_condition_number_filter_block:
  "result_condition_number (filter_block eps t v)
     = fdiv (vector_back eps) (deref eps (first_above eps t))"
  by (simp add: filter_block_def Let_def)

lemma upt_Suc_ranks: "[0..<Suc n] = 0 # map Suc [0..<n]"
  by (simp add: upt_conv_Cons map_Suc_upt del: upt_Suc)

lemma before_broadcast_ranks:
  "map (before_broadcast eps t) [0..<Suc n]
     = filter_block eps t init_vars # replicate n init_vars"
  unfolding upt_Suc_ranks
  by (simp add: before_broadcast_def o_def map_replicate_const)

lemma after_broadcast_Suc:
  "after_broadcast (Suc n) eps t =
     (filter_block eps t init_vars)
       \<lparr>n_cond := int (length eps) - int (first_above eps t)\<rparr>
     # replicate n (init_vars\<lparr>n_illcond := int (first_above eps t),
                               n_cond := int (length eps) - int (first_above eps t)\<rparr>)"
  unfolding after_broadcast_def Let_def before_broadcast_ranks
  by (cases n) (simp_all add: n_illcond_filter_block)

lemma after_broadcast_0: "after_broadcast 0 eps t = []"
  by (simp add: after_broadcast_def)

text \<open>C1: after the broadcast step of \<^verbatim>\<open>gensqrtinv\<close> and of \<^verbatim>\<open>gensqrtinv_atscf\<close>, in a group
  of any size and for every eigenvalue vector and threshold, every rank holds the
  \<^verbatim>\<open>n_illcond\<close> that rank 0 computed in its filter block and the same
  \<open>n_cond = N - n_illcond\<close>; the value stored in \<^verbatim>\<open>sys_data.nbf\<close> and the \<^verbatim>\<open>size_t(n_cond)\<close>
  returned by the fragment entry point are the same on every rank.\<close>

theorem n_cond_identical_on_every_rank:
  "map n_illcond (after_broadcast world_size eps threshold)
     = replicate world_size (n_illcond (filter_block eps threshold init_vars))
   \<and> map n_cond (after_broadcast world_size eps threshold)
     = replicate world_size (int (length eps) - n_illcond (filter_block eps threshold init_vars))
   \<and> map sys_data_nbf (snd (gensqrtinv world_size V eps threshold))
     = replicate world_size (int (length eps) - n_illcond (filter_block eps threshold init_vars))
   \<and> map (fst \<circ> snd) (gensqrtinv_atscf world_size V eps threshold)
     = replicate world_size
         (size_t (int (length eps) - n_illcond (filter_block eps threshold init_vars)))"
proof (cases world_size)
  case 0
  then show ?thesis
    by (simp add: after_broadcast_0 gensqrtinv_def gensqrtinv_atscf_def)
next
  case (Suc n)
  then show ?thesis
    by (simp add: after_broadcast_Suc gensqrtinv_def gensqrtinv_atscf_def Let_def
        gensqrtinv_return_def n_illcond_filter_block)
qed

text \<open>C9: the \<^verbatim>\<open>condition_number\<close> returned by \<^verbatim>\<open>gensqrtinv\<close> (second component) and by
  \<^verbatim>\<open>gensqrtinv_atscf\<close> (third component) is 0 on every rank, whatever the eigenvalues,
  the eigenvectors and the threshold are: it is initialised to 0 and never assigned.\<close>

theorem condition_number_not_computed:
  "map (fst \<circ> snd \<circ> returned) (snd (gensqrtinv world_size V eps threshold))
     = replicate world_size 0
   \<and> map (fst \<circ> snd \<circ> snd) (gensqrtinv_atscf world_size V eps threshold)
     = replicate world_size 0"
proof (cases world_size)
  case 0
  then show ?thesis
    by (simp add: after_broadcast_0 gensqrtinv_def gensqrtinv_atscf_def)
next
  case (Suc n)
  then show ?thesis
    by (simp add: after_broadcast_Suc gensqrtinv_def gensqrtinv_atscf_def Let_def
        gensqrtinv_return_def condition_number_filter_block init_vars_def)
qed

lemma sorted_last_Max:
  fixes xs :: "real list"
  assumes "sorted xs" and "xs \<noteq> []"
  shows "last xs = Max (set xs)"
proof -
  have "y \<le> last xs" if "y \<in> set xs" for y
  proof -
    from that obtain i where i: "i < length xs" "xs ! i = y"
      by (auto simp: in_set_conv_nth)
    with assms have "xs ! i \<le> xs ! (length xs - 1)"
      by (intro sorted_nth_mono) auto
    with i assms show ?thesis by (simp add: last_conv_nth)
  qed
  moreover have "last xs \<in> set xs" using assms by simp
  ultimately show ?thesis by (intro Max_eqI [symmetric]) auto
qed

text \<open>C2: for an ascending, non-empty eigenvalue vector with some eigenvalue \<open>\<ge> threshold\<close>,
  the iterator found by the filter block is the position of the first eigenvalue
  \<open>\<ge> threshold\<close> (that eigenvalue is \<open>\<ge> threshold\<close>, all before it are \<open>< threshold\<close>, so
  an eigenvalue equal to the threshold is retained), \<^verbatim>\<open>n_illcond\<close> is that position,
  \<^verbatim>\<open>n_cond\<close> is \<open>N - n_illcond\<close> and \<^verbatim>\<open>result_condition_number\<close> is the largest eigenvalue
  divided by the eigenvalue at that position. For the eigenvalues
  \<open>[1e-12, 0.5, 1.0, 2.0]\<close> and the threshold \<open>1e-10\<close> this gives 1, 3 and 4.\<close>

theorem filter_cut_at_first_retained:
  "(sorted eps \<and> eps \<noteq> [] \<and> (\<exists>x\<in>set eps. threshold \<le> x) \<longrightarrow>
      first_above eps threshold < length eps
      \<and> threshold \<le> eps ! first_above eps threshold
      \<and> (\<forall>j < first_above eps threshold. eps ! j < threshold)
      \<and> n_illcond (filter_block eps threshold init_vars) = int (first_above eps threshold)
      \<and> n_cond (filter_block eps threshold init_vars)
          = int (length eps) - n_illcond (filter_block eps threshold init_vars)
      \<and> result_condition_number (filter_block eps threshold init_vars)
          = Inr (Max (set eps) / eps ! first_above eps threshold))
   \<and> first_above [1 / 10 ^ 12, 1 / 2, 1, 2] (1 / 10 ^ 10) = 1
   \<and> n_illcond (filter_block [1 / 10 ^ 12, 1 / 2, 1, 2] (1 / 10 ^ 10) init_vars) = 1
   \<and> n_cond (filter_block [1 / 10 ^ 12, 1 / 2, 1, 2] (1 / 10 ^ 10) init_vars) = 3
   \<and> result_condition_number (filter_block [1 / 10 ^ 12, 1 / 2, 1, 2] (1 / 10 ^ 10) init_vars)
       = Inr 4"
proof -
  have general: "first_above eps threshold < length eps
      \<and> threshold \<le> eps ! first_above eps threshold
      \<and> (\<forall>j < first_above eps threshold. eps ! j < threshold)
      \<and> n_illcond (filter_block eps threshold init_vars) = int (first_above eps threshold)
      \<and> n_cond (filter_block eps threshold init_vars)
          = int (length eps) - n_illcond (filter_block eps threshold init_vars)
      \<and> result_condition_number (filter_block eps threshold init_vars)
          = Inr (Max (set eps) / eps ! first_above eps threshold)"
    if asc: "sorted eps" and ne: "eps \<noteq> []" and ex: "\<exists>x\<in>set eps. threshold \<le> x"
  proof -
    have lt: "first_above eps threshold < length eps"
      using ex by (simp add: first_above_def find_if_less_iff)
    have ge: "threshold \<le> eps ! first_above eps threshold"
      using find_if_holds [of "\<lambda>x. x \<ge> threshold" eps] lt by (simp add: first_above_def)
    have below: "\<forall>j < first_above eps threshold. eps ! j < threshold"
      using find_if_before [of _ "\<lambda>x. x \<ge> threshold" eps]
      by (auto simp: first_above_def not_le)
    have rcn: "result_condition_number (filter_block eps threshold init_vars)
          = Inr (Max (set eps) / eps ! first_above eps threshold)"
      using lt ne sorted_last_Max [OF asc ne]
      by (simp add: result_condition_number_filter_block fdiv_def vector_back_def deref_def)
    show ?thesis
      using lt ge below rcn by (simp add: n_illcond_filter_block n_cond_filter_block)
  qed
  have scenario: "first_above [1 / 10 ^ 12, 1 / 2, 1, 2] (1 / 10 ^ 10) = 1"
    by (simp add: first_above_def)
  have "result_condition_number (filter_block [1 / 10 ^ 12, 1 / 2, 1, 2] (1 / 10 ^ 10) init_vars)
       = Inr 4"
    by (simp add: result_condition_number_filter_block first_above_def fdiv_def vector_back_def deref_def)
  with general scenario show ?thesis
    by (simp add: n_illcond_filter_block n_cond_filter_block)
qed

text \<open>The statement at the eigenvalues \<open>[0.25, 1, 4]\<close> and the threshold \<open>0.5\<close>.\<close>

theorem filter_cut_at_first_retained_witness:
  "sorted [1 / 4, 1, 4 :: real] \<and> [1 / 4, 1, 4 :: real] \<noteq> [] \<and> (\<exists>x\<in>set [1 / 4, 1, 4 :: real]. 1 / 2 \<le> x)
   \<and> first_above [1 / 4, 1, 4] (1 / 2) = 1
   \<and> n_illcond (filter_block [1 / 4, 1, 4] (1 / 2) init_vars) = 1
   \<and> n_cond (filter_block [1 / 4, 1, 4] (1 / 2) init_vars) = 2
   \<and> result_condition_number (filter_block [1 / 4, 1, 4] (1 / 2) init_vars) = Inr 4"
proof -
  have i: "first_above [1 / 4, 1, 4] (1 / 2) = 1"
    by (simp add: first_above_def)
  have h: "sorted [1 / 4, 1, 4 :: real] \<and> [1 / 4, 1, 4 :: real] \<noteq> []
           \<and> (\<exists>x\<in>set [1 / 4, 1, 4 :: real]. 1 / 2 \<le> x)"
    by simp
  from filter_cut_at_first_retained [of "[1 / 4, 1, 4]" "1 / 2"] h i
  show ?thesis by simp
qed

subsection \<open>Thresholds at and above the largest eigenvalue\<close>

lemma first_above_eq_length_iff:
  "first_above eps t = length eps \<longleftrightarrow> (\<forall>x\<in>set eps. x < t)"
  unfolding first_above_def by (induction eps) auto

text \<open>C3: the run on the three eigenvalues \<open>[1e-12, 2e-12, 3e-12]\<close>, all below the threshold
  \<open>1e-10\<close>. The scan ends at \<^verbatim>\<open>eps.end()\<close>, and the filter block reads through that
  iterator twice: for \<^verbatim>\<open>result_condition_number\<close> (line 163) and for the second line of
  the warning (line 171). The counts are \<open>n_illcond = 3\<close> and \<open>n_cond = 0\<close>, and the
  transform has three rows and no column.\<close>

theorem all_below_threshold_reads_past_end:
  "first_above [1 / 10 ^ 12, 2 / 10 ^ 12, 3 / 10 ^ 12] (1 / 10 ^ 10)
     = length [1 / 10 ^ 12, 2 / 10 ^ 12, 3 / 10 ^ 12 :: real]
   \<and> result_condition_number
        (filter_block [1 / 10 ^ 12, 2 / 10 ^ 12, 3 / 10 ^ 12] (1 / 10 ^ 10) init_vars)
       = Inl EndIteratorDeref
   \<and> printed (filter_block [1 / 10 ^ 12, 2 / 10 ^ 12, 3 / 10 ^ 12] (1 / 10 ^ 10) init_vars) ! 1
       = First_above_tol_lindep (Inl EndIteratorDeref)
   \<and> n_illcond (filter_block [1 / 10 ^ 12, 2 / 10 ^ 12, 3 / 10 ^ 12] (1 / 10 ^ 10) init_vars) = 3
   \<and> n_cond (filter_block [1 / 10 ^ 12, 2 / 10 ^ 12, 3 / 10 ^ 12] (1 / 10 ^ 10) init_vars) = 0
   \<and> fst (gensqrtinv 1 V [1 / 10 ^ 12, 2 / 10 ^ 12, 3 / 10 ^ 12] (1 / 10 ^ 10))
       = \<lparr>rows = 3, cols = 0, data = []\<rparr>"
proof -
  have i: "first_above [1 / 10 ^ 12, 2 / 10 ^ 12, 3 / 10 ^ 12] (1 / 10 ^ 10) = 3"
    by (simp add: first_above_def)
  have r: "result_condition_number
        (filter_block [1 / 10 ^ 12, 2 / 10 ^ 12, 3 / 10 ^ 12] (1 / 10 ^ 10) init_vars)
       = Inl EndIteratorDeref"
    by (simp add: result_condition_number_filter_block first_above_def fdiv_def vector_back_def
        deref_def)
  have p: "printed (filter_block [1 / 10 ^ 12, 2 / 10 ^ 12, 3 / 10 ^ 12] (1 / 10 ^ 10) init_vars) ! 1
       = First_above_tol_lindep (Inl EndIteratorDeref)"
    by (simp add: filter_block_def Let_def first_above_def warning_def deref_def init_vars_def)
  have x: "fst (gensqrtinv 1 V [1 / 10 ^ 12, 2 / 10 ^ 12, 3 / 10 ^ 12] (1 / 10 ^ 10))
       = \<lparr>rows = 3, cols = 0, data = []\<rparr>"
    using after_broadcast_Suc [of 0 "[1 / 10 ^ 12, 2 / 10 ^ 12, 3 / 10 ^ 12]" "1 / 10 ^ 10"]
    by (simp add: gensqrtinv_def X_alpha_of_def Let_def matrix_of_def first_above_def)
  from i r p x show ?thesis
    by (simp add: n_illcond_filter_block n_cond_filter_block first_above_def)
qed

text \<open>C4, amended: for an ascending, non-empty eigenvalue vector, a threshold strictly above
  the largest eigenvalue gives \<open>n_cond = 0\<close>, and a threshold up to and including the
  largest eigenvalue gives \<open>n_cond \<ge> 1\<close>.\<close>

theorem n_cond_zero_above_largest:
  assumes "sorted eps" and "eps \<noteq> []"
  shows "(last eps < threshold \<longrightarrow> n_cond (filter_block eps threshold init_vars) = 0)
       \<and> (threshold \<le> last eps \<longrightarrow> 1 \<le> n_cond (filter_block eps threshold init_vars))"
proof -
  have le: "x \<le> last eps" if "x \<in> set eps" for x
    using sorted_last_Max [OF assms] that by simp
  have "first_above eps threshold = length eps" if "last eps < threshold"
    using that le by (force simp: first_above_eq_length_iff)
  moreover have "first_above eps threshold < length eps" if "threshold \<le> last eps"
  proof -
    have "last eps \<in> set eps" using assms by simp
    with that have "\<not> (\<forall>x\<in>set eps. x < threshold)" by force
    then have "first_above eps threshold \<noteq> length eps"
      by (simp add: first_above_eq_length_iff)
    with first_above_le [of eps threshold] show ?thesis by linarith
  qed
  ultimately show ?thesis
    by (auto simp: n_cond_filter_block)
qed

text \<open>The statement at the eigenvalues \<open>[0.5, 1, 2]\<close> with the thresholds 3 and 1.\<close>

theorem n_cond_zero_above_largest_witness:
  "sorted [1 / 2, 1, 2 :: real] \<and> [1 / 2, 1, 2 :: real] \<noteq> []
   \<and> last [1 / 2, 1, 2 :: real] < 3
   \<and> n_cond (filter_block [1 / 2, 1, 2] 3 init_vars) = 0
   \<and> 1 \<le> last [1 / 2, 1, 2 :: real]
   \<and> 1 \<le> n_cond (filter_block [1 / 2, 1, 2] 1 init_vars)"
  using n_cond_zero_above_largest [of "[1 / 2, 1, 2]" 3]
    n_cond_zero_above_largest [of "[1 / 2, 1, 2]" 1]
  by simp

text \<open>C4 as stated fails when the threshold equals the largest eigenvalue: for the ascending
  eigenvalues \<open>[0.5, 1, 2]\<close> and the threshold 2, the comparison \<open>x \<ge> threshold\<close> retains
  the last eigenvalue and \<open>n_cond = 1\<close>.\<close>

theorem threshold_equal_to_largest_counterexample:
  "sorted [1 / 2, 1, 2 :: real]
   \<and> Max (set [1 / 2, 1, 2 :: real]) \<le> 2
   \<and> n_cond (filter_block [1 / 2, 1, 2] 2 init_vars) = 1
   \<and> n_cond (filter_block [1 / 2, 1, 2] 2 init_vars) \<noteq> 0"
  by (simp add: n_cond_filter_block first_above_def)

subsection \<open>Matrices and the scaling loop\<close>

lemma length_concat_rows:
  "length (concat (map (\<lambda>r. map (f r) [0..<nc]) [0..<nr])) = nr * nc"
  by (induction nr) simp_all

lemma nth_concat_rows:
  assumes "r < nr" and "c < nc"
  shows "concat (map (\<lambda>r. map (f r) [0..<nc]) [0..<nr]) ! (r * nc + c) = f r c"
  using assms(1)
proof (induction nr)
  case 0
  then show ?case by simp
next
  case (Suc n)
  show ?case
  proof (cases "r < n")
    case True
    then have "Suc r \<le> n" by simp
    then have "Suc r * nc \<le> n * nc" by (rule mult_le_mono1)
    with assms(2) have "r * nc + c < n * nc" by simp
    with True Suc.IH show ?thesis
      by (simp add: nth_append length_concat_rows)
  next
    case False
    with Suc.prems have "r = n" by simp
    with assms(2) show ?thesis
      by (simp add: nth_append length_concat_rows)
  qed
qed

lemma rows_matrix_of [simp]: "rows (matrix_of nr nc f) = nr"
  and cols_matrix_of [simp]: "cols (matrix_of nr nc f) = nc"
  and length_data_matrix_of [simp]: "length (data (matrix_of nr nc f)) = nr * nc"
  by (simp_all add: matrix_of_def length_concat_rows)

lemma data_matrix_of_nth:
  "r < nr \<Longrightarrow> c < nc \<Longrightarrow> data (matrix_of nr nc f) ! (r * nc + c) = f r c"
  by (simp add: matrix_of_def nth_concat_rows)

lemma coeff_matrix_of: "r < nr \<Longrightarrow> c < nc \<Longrightarrow> coeff (matrix_of nr nc f) r c = f r c"
  by (simp add: coeff_def data_matrix_of_nth)

lemma length_scal [simp]: "length (scal n a x off incx) = length x"
  unfolding scal_def by (induction n) simp_all

lemma scal_Suc:
  "scal (Suc n) a x off incx =
     (scal n a x off incx)[off + n * incx := a * scal n a x off incx ! (off + n * incx)]"
  by (simp add: scal_def)

lemma scal_nth:
  assumes "0 < incx" and "j < length x"
  shows "scal n a x off incx ! j =
           (if \<exists>k<n. j = off + k * incx then a * x ! j else x ! j)"
proof (induction n)
  case 0
  then show ?case by (simp add: scal_def)
next
  case (Suc n)
  have fresh: "\<not> (\<exists>k<n. off + n * incx = off + k * incx)"
    using assms(1) by auto
  show ?case
  proof (cases "j = off + n * incx")
    case True
    with assms(2) Suc.IH fresh show ?thesis
      by (auto simp: scal_Suc)
  next
    case False
    have "(\<exists>k<Suc n. j = off + k * incx) \<longleftrightarrow> (\<exists>k<n. j = off + k * incx)"
      using False by (auto simp: less_Suc_eq)
    with False Suc.IH show ?thesis
      by (simp add: scal_Suc)
  qed
qed

lemma position_in_column:
  fixes i c r nc N :: nat
  assumes "i < nc" and "c < nc" and "r < N"
  shows "(\<exists>k<N. r * nc + c = i + k * nc) \<longleftrightarrow> c = i"
proof
  assume "\<exists>k<N. r * nc + c = i + k * nc"
  then obtain k where "r * nc + c = i + k * nc" by blast
  then have "(r * nc + c) mod nc = (i + k * nc) mod nc" by simp
  with assms show "c = i" by simp
next
  assume "c = i"
  with assms(3) show "\<exists>k<N. r * nc + c = i + k * nc" by auto
qed

lemma index_in_buffer:
  assumes "r < N" and "c < (nc::nat)"
  shows "r * nc + c < N * nc"
proof -
  from assms(1) have "Suc r * nc \<le> N * nc" by (intro mult_le_mono1) simp
  with assms(2) show ?thesis by simp
qed

lemma scal_column:
  assumes "i < nc" and "length buf = N * nc" and "r < N" and "c < nc"
  shows "scal N a buf i nc ! (r * nc + c)
           = (if c = i then a * buf ! (r * nc + c) else buf ! (r * nc + c))"
proof -
  have "0 < nc" using assms(1) by simp
  moreover have "r * nc + c < length buf"
    using assms index_in_buffer by simp
  ultimately show ?thesis
    by (simp add: scal_nth position_in_column [OF assms(1) assms(4) assms(3)])
qed

lemma column_loop:
  assumes "length (data X) = N * nc"
  shows "m \<le> nc \<Longrightarrow>
         rows (fold (\<lambda>i X. X\<lparr>data := scal N (g i) (data X) i nc\<rparr>) [0..<m] X) = rows X
       \<and> cols (fold (\<lambda>i X. X\<lparr>data := scal N (g i) (data X) i nc\<rparr>) [0..<m] X) = cols X
       \<and> length (data (fold (\<lambda>i X. X\<lparr>data := scal N (g i) (data X) i nc\<rparr>) [0..<m] X)) = N * nc
       \<and> (\<forall>r<N. \<forall>c<nc.
            data (fold (\<lambda>i X. X\<lparr>data := scal N (g i) (data X) i nc\<rparr>) [0..<m] X) ! (r * nc + c)
              = (if c < m then g c * data X ! (r * nc + c) else data X ! (r * nc + c)))"
proof (induction m)
  case 0
  then show ?case using assms by simp
next
  case (Suc m)
  then have m: "m < nc" and IH:
    "rows (fold (\<lambda>i X. X\<lparr>data := scal N (g i) (data X) i nc\<rparr>) [0..<m] X) = rows X"
    "cols (fold (\<lambda>i X. X\<lparr>data := scal N (g i) (data X) i nc\<rparr>) [0..<m] X) = cols X"
    "length (data (fold (\<lambda>i X. X\<lparr>data := scal N (g i) (data X) i nc\<rparr>) [0..<m] X)) = N * nc"
    "\<And>r c. r < N \<Longrightarrow> c < nc \<Longrightarrow>
       data (fold (\<lambda>i X. X\<lparr>data := scal N (g i) (data X) i nc\<rparr>) [0..<m] X) ! (r * nc + c)
         = (if c < m then g c * data X ! (r * nc + c) else data X ! (r * nc + c))"
    by simp_all
  show ?case
    using IH(1,2,3) m
    by (auto simp: scal_column [OF m IH(3)] IH(4) less_Suc_eq)
qed


subsection \<open>The transform\<close>

lemma retained_count:
  "nat (int (length eps) - int (first_above eps t)) = length eps - first_above eps t"
  by simp

lemma X_alpha_of_shape:
  assumes "n_cond v = int (length eps) - int (first_above eps t)"
  shows "rows (X_alpha_of V eps t v) = length eps"
    and "cols (X_alpha_of V eps t v) = length eps - first_above eps t"
    and "length (data (X_alpha_of V eps t v)) = length eps * (length eps - first_above eps t)"
  using assms by (simp_all add: X_alpha_of_def Let_def retained_count)

lemma X_alpha_of_entry:
  assumes "n_illcond v = int (first_above eps t)"
    and "n_cond v = int (length eps) - int (first_above eps t)"
    and "mu < length eps" and "i < length eps - first_above eps t"
  shows "data (X_alpha_of V eps t v) ! (mu * (length eps - first_above eps t) + i)
           = coeff V (first_above eps t + i) mu * (1 / sqrt (eps ! (first_above eps t + i)))"
  using assms
  by (simp add: X_alpha_of_def Let_def retained_count data_matrix_of_nth transpose_matrix_def
      block_def coeff_matrix_of)

lemma X_atscf_of_facts:
  assumes "n_illcond v = int (first_above eps t)"
    and "n_cond v = int (length eps) - int (first_above eps t)"
  shows "rows (X_atscf_of V eps t v) = length eps"
    and "cols (X_atscf_of V eps t v) = length eps - first_above eps t"
    and "length (data (X_atscf_of V eps t v)) = length eps * (length eps - first_above eps t)"
    and "mu < length eps \<Longrightarrow> i < length eps - first_above eps t \<Longrightarrow>
         data (X_atscf_of V eps t v) ! (mu * (length eps - first_above eps t) + i)
           = 1 / sqrt (eps ! (first_above eps t + i)) * coeff V (first_above eps t + i) mu"
proof -
  let ?N = "length eps" and ?f = "first_above eps t"
  let ?X = "transpose_matrix (block V ?f 0 (?N - ?f) ?N)"
  have eq: "X_atscf_of V eps t v =
      fold (\<lambda>i X. X\<lparr>data := scal ?N (1 / sqrt (eps ! (?f + i))) (data X) i (?N - ?f)\<rparr>)
        [0..<?N - ?f] ?X"
    using assms by (simp add: X_atscf_of_def Let_def retained_count)
  have len: "length (data ?X) = ?N * (?N - ?f)"
    by (simp add: transpose_matrix_def block_def)
  note loop = column_loop [OF len, of "?N - ?f" "\<lambda>i. 1 / sqrt (eps ! (?f + i))", simplified]
  show "rows (X_atscf_of V eps t v) = ?N"
    using loop by (simp add: eq transpose_matrix_def block_def)
  show "cols (X_atscf_of V eps t v) = ?N - ?f"
    using loop by (simp add: eq transpose_matrix_def block_def)
  show "length (data (X_atscf_of V eps t v)) = ?N * (?N - ?f)"
    using loop by (simp add: eq)
  show "data (X_atscf_of V eps t v) ! (mu * (?N - ?f) + i)
           = 1 / sqrt (eps ! (?f + i)) * coeff V (?f + i) mu"
    if "mu < ?N" and "i < ?N - ?f"
  proof -
    have "data ?X ! (mu * (?N - ?f) + i) = coeff V (?f + i) mu"
      using that
      by (simp add: transpose_matrix_def block_def data_matrix_of_nth coeff_matrix_of)
    with loop that show ?thesis by (simp add: eq)
  qed
qed

lemma X_atscf_of_eq_X_alpha_of:
  assumes "n_illcond v = int (first_above eps t)"
    and "n_cond v = int (length eps) - int (first_above eps t)"
  shows "X_atscf_of V eps t v = X_alpha_of V eps t v"
proof -
  let ?N = "length eps" and ?nc = "length eps - first_above eps t"
  have "data (X_atscf_of V eps t v) = data (X_alpha_of V eps t v)"
  proof (rule nth_equalityI)
    show "length (data (X_atscf_of V eps t v)) = length (data (X_alpha_of V eps t v))"
      using assms by (simp add: X_atscf_of_facts(3) X_alpha_of_shape(3))
  next
    fix k assume "k < length (data (X_atscf_of V eps t v))"
    then have k: "k < ?N * ?nc"
      using assms by (simp add: X_atscf_of_facts(3))
    then have nc: "0 < ?nc" by (cases "?nc = 0") simp_all
    have split: "k = (k div ?nc) * ?nc + k mod ?nc"
      by (rule div_mult_mod_eq [symmetric])
    have r: "k div ?nc < ?N"
      using k nc by (simp add: less_mult_imp_div_less)
    have c: "k mod ?nc < ?nc" using nc by simp
    have "data (X_atscf_of V eps t v) ! ((k div ?nc) * ?nc + k mod ?nc)
            = data (X_alpha_of V eps t v) ! ((k div ?nc) * ?nc + k mod ?nc)"
      using X_atscf_of_facts(4) [OF assms r c] X_alpha_of_entry [OF assms r c]
      by (simp add: mult.commute)
    with split show "data (X_atscf_of V eps t v) ! k = data (X_alpha_of V eps t v) ! k"
      by simp
  qed
  moreover have "rows (X_atscf_of V eps t v) = rows (X_alpha_of V eps t v)"
    using assms by (simp add: X_atscf_of_facts(1) X_alpha_of_shape(1))
  moreover have "cols (X_atscf_of V eps t v) = cols (X_alpha_of V eps t v)"
    using assms by (simp add: X_atscf_of_facts(2) X_alpha_of_shape(2))
  ultimately show ?thesis by simp
qed


lemma after_broadcast_nth:
  assumes "rank < world_size"
  shows "n_illcond (after_broadcast world_size eps t ! rank) = int (first_above eps t)"
    and "n_cond (after_broadcast world_size eps t ! rank)
           = int (length eps) - int (first_above eps t)"
proof -
  from assms obtain n where n: "world_size = Suc n" by (cases world_size) auto
  show "n_illcond (after_broadcast world_size eps t ! rank) = int (first_above eps t)"
    using assms unfolding n after_broadcast_Suc
    by (cases rank) (simp_all add: n_illcond_filter_block)
  show "n_cond (after_broadcast world_size eps t ! rank)
           = int (length eps) - int (first_above eps t)"
    using assms unfolding n after_broadcast_Suc
    by (cases rank) simp_all
qed

lemma X_alpha_of_col:
  assumes "n_illcond v = int (first_above eps t)"
    and "n_cond v = int (length eps) - int (first_above eps t)"
    and "cols V = length eps" and "i < length eps - first_above eps t"
  shows "col (X_alpha_of V eps t v) i
           = map (\<lambda>x. x * (1 / sqrt (eps ! (first_above eps t + i))))
               (row V (first_above eps t + i))"
proof -
  have "coeff (X_alpha_of V eps t v) mu i
          = coeff V (first_above eps t + i) mu * (1 / sqrt (eps ! (first_above eps t + i)))"
    if "mu < length eps" for mu
    using X_alpha_of_entry [OF assms(1,2) that assms(4), of V]
    by (simp add: coeff_def [of "X_alpha_of V eps t v"] X_alpha_of_shape(2) [OF assms(2)])
  then show ?thesis
    by (simp add: col_def row_def X_alpha_of_shape(1) [OF assms(2)] assms(3) o_def)
qed

lemma transform_of_group:
  "fst (gensqrtinv (Suc n) V eps t)
     = X_alpha_of V eps t
         ((filter_block eps t init_vars)\<lparr>n_cond := int (length eps) - int (first_above eps t)\<rparr>)"
  "rank < Suc n \<Longrightarrow>
   fst (gensqrtinv_atscf (Suc n) V eps t ! rank)
     = X_alpha_of V eps t
         ((filter_block eps t init_vars)\<lparr>n_cond := int (length eps) - int (first_above eps t)\<rparr>)"
proof -
  show "fst (gensqrtinv (Suc n) V eps t)
     = X_alpha_of V eps t
         ((filter_block eps t init_vars)\<lparr>n_cond := int (length eps) - int (first_above eps t)\<rparr>)"
    by (simp add: gensqrtinv_def after_broadcast_Suc)
  have eq: "X_atscf_of V eps t
          ((filter_block eps t init_vars)\<lparr>n_cond := int (length eps) - int (first_above eps t)\<rparr>)
      = X_alpha_of V eps t
          ((filter_block eps t init_vars)\<lparr>n_cond := int (length eps) - int (first_above eps t)\<rparr>)"
    by (rule X_atscf_of_eq_X_alpha_of) (simp_all add: n_illcond_filter_block)
  show "fst (gensqrtinv_atscf (Suc n) V eps t ! rank)
     = X_alpha_of V eps t
         ((filter_block eps t init_vars)\<lparr>n_cond := int (length eps) - int (first_above eps t)\<rparr>)"
    if "rank < Suc n"
    using that by (cases rank) (simp_all add: gensqrtinv_atscf_def after_broadcast_Suc eq)
qed

text \<open>C5: let \<^verbatim>\<open>n_illcond\<close> and \<^verbatim>\<open>n_cond\<close> be the values a rank holds after the broadcast, and let
  \<open>V\<close> have \<open>N\<close> columns, so that row \<open>j\<close> of \<open>V\<close> is the eigenvector of \<^verbatim>\<open>eps[j]\<close>. For every
  column index \<open>i < n_cond\<close> (so \<open>n_cond \<ge> 1\<close>), the transform left in \<^verbatim>\<open>ttensors.X_alpha\<close> by
  \<^verbatim>\<open>gensqrtinv\<close> and the matrix returned on that rank by \<^verbatim>\<open>gensqrtinv_atscf\<close> both have
  \<open>N\<close> rows and \<^verbatim>\<open>n_cond\<close> columns, and their column \<open>i\<close> is eigenvector \<open>n_illcond + i\<close> with
  every entry multiplied by \<open>1 / sqrt (eps[n_illcond + i])\<close>.\<close>

theorem transform_columns_are_scaled_eigenvectors:
  assumes "rank < world_size" and "cols V = length eps"
    and "int i < n_cond (after_broadcast world_size eps threshold ! rank)"
  shows "rows (fst (gensqrtinv world_size V eps threshold)) = length eps
       \<and> cols (fst (gensqrtinv world_size V eps threshold))
           = nat (n_cond (after_broadcast world_size eps threshold ! rank))
       \<and> col (fst (gensqrtinv world_size V eps threshold)) i
           = map (\<lambda>x. x * (1 / sqrt (eps ! (nat (n_illcond (after_broadcast world_size eps threshold ! rank)) + i))))
               (row V (nat (n_illcond (after_broadcast world_size eps threshold ! rank)) + i))
       \<and> rows (fst (gensqrtinv_atscf world_size V eps threshold ! rank)) = length eps
       \<and> cols (fst (gensqrtinv_atscf world_size V eps threshold ! rank))
           = nat (n_cond (after_broadcast world_size eps threshold ! rank))
       \<and> col (fst (gensqrtinv_atscf world_size V eps threshold ! rank)) i
           = map (\<lambda>x. x * (1 / sqrt (eps ! (nat (n_illcond (after_broadcast world_size eps threshold ! rank)) + i))))
               (row V (nat (n_illcond (after_broadcast world_size eps threshold ! rank)) + i))"
proof -
  let ?v = "(filter_block eps threshold init_vars)
              \<lparr>n_cond := int (length eps) - int (first_above eps threshold)\<rparr>"
  from assms(1) obtain n where n: "world_size = Suc n" by (cases world_size) auto
  have ill: "n_illcond ?v = int (first_above eps threshold)"
    by (simp add: n_illcond_filter_block)
  have cond: "n_cond ?v = int (length eps) - int (first_above eps threshold)"
    by simp
  have i: "i < length eps - first_above eps threshold"
    using assms(3) by (simp add: after_broadcast_nth(2) [OF assms(1)])
  have X: "fst (gensqrtinv world_size V eps threshold) = X_alpha_of V eps threshold ?v"
    "fst (gensqrtinv_atscf world_size V eps threshold ! rank) = X_alpha_of V eps threshold ?v"
    using assms(1) unfolding n by (simp_all add: transform_of_group)
  show ?thesis
    unfolding X after_broadcast_nth [OF assms(1)]
    by (simp add: X_alpha_of_shape [OF cond] X_alpha_of_col [OF ill cond assms(2) i])
qed

text \<open>The statement for the overlap matrix \<open>diag(0.01, 4)\<close> in one process: eigenvalues
  \<open>[0.01, 4]\<close>, eigenvectors the unit vectors, threshold 1. One column is retained, the
  second unit vector divided by 2.\<close>

theorem transform_columns_are_scaled_eigenvectors_witness:
  "(0::nat) < 1
   \<and> cols \<lparr>rows = 2, cols = 2, data = [1, 0, 0, 1]\<rparr> = length [1 / 100, 4 :: real]
   \<and> int 0 < n_cond (after_broadcast 1 [1 / 100, 4] 1 ! 0)
   \<and> rows (fst (gensqrtinv 1 \<lparr>rows = 2, cols = 2, data = [1, 0, 0, 1]\<rparr> [1 / 100, 4] 1)) = 2
   \<and> cols (fst (gensqrtinv 1 \<lparr>rows = 2, cols = 2, data = [1, 0, 0, 1]\<rparr> [1 / 100, 4] 1)) = 1
   \<and> col (fst (gensqrtinv 1 \<lparr>rows = 2, cols = 2, data = [1, 0, 0, 1]\<rparr> [1 / 100, 4] 1)) 0
       = [0, 1 / 2]
   \<and> col (fst (gensqrtinv_atscf 1 \<lparr>rows = 2, cols = 2, data = [1, 0, 0, 1]\<rparr> [1 / 100, 4] 1 ! 0)) 0
       = [0, 1 / 2]"
proof -
  have f: "first_above [1 / 100, 4] 1 = 1"
    by (simp add: first_above_def)
  have v: "n_cond (after_broadcast 1 [1 / 100, 4] 1 ! 0) = 1"
    "n_illcond (after_broadcast 1 [1 / 100, 4] 1 ! 0) = 1"
    using after_broadcast_Suc [of 0 "[1 / 100, 4]" 1]
    by (simp_all add: f n_illcond_filter_block)
  have r: "row \<lparr>rows = 2, cols = 2, data = [1, 0, 0, 1]\<rparr> (Suc 0) = [0, 1]"
    by (simp add: row_def coeff_def numeral_2_eq_2 upt_rec)
  have h1: "(0::nat) < 1" by simp
  have h2: "cols \<lparr>rows = 2, cols = 2, data = [1, 0, 0, 1]\<rparr> = length [1 / 100, 4 :: real]"
    by simp
  have h3: "int 0 < n_cond (after_broadcast 1 [1 / 100, 4] 1 ! 0)"
    unfolding v by simp
  note t = transform_columns_are_scaled_eigenvectors [OF h1 h2 h3, unfolded v]
  from h1 h2 h3 t show ?thesis
    by (simp add: r)
qed

subsection \<open>The gather\<close>

lemma wrap32_in_range: "- (2 ^ 31) \<le> x \<Longrightarrow> x < 2 ^ 31 \<Longrightarrow> wrap32 x = x"
  by (simp add: wrap32_def)

lemma int_of_size_small: "n < 2 ^ 31 \<Longrightarrow> int_of_size n = int n"
  by (simp add: int_of_size_def wrap32_in_range)

lemma length_exclusive_prefix_sum [simp]: "length (exclusive_prefix_sum a cs) = length cs"
  by (induction cs arbitrary: a) simp_all

lemma exclusive_prefix_sum_nth:
  "i < length cs \<Longrightarrow> exclusive_prefix_sum a cs ! i = a + sum_list (take i cs)"
proof (induction cs arbitrary: a i)
  case Nil
  then show ?case by simp
next
  case (Cons c cs)
  then show ?case by (cases i) simp_all
qed

lemma length_displacements [simp]: "length (displacements n count) = n"
proof -
  have "length (fold (\<lambda>i disps. disps[i := (if i > 0 then int_add (disps ! (i - 1)) (count ! (i - 1)) else 0)])
          [0..<m] ds) = length ds" for m ds
    by (induction m) simp_all
  then show ?thesis by (simp add: displacements_def)
qed

lemma displacements_prefix:
  assumes range: "\<And>i. i \<le> length count \<Longrightarrow>
                    - (2 ^ 31) \<le> sum_list (take i count) \<and> sum_list (take i count) < 2 ^ 31"
  shows "m \<le> length count \<Longrightarrow> i < m \<Longrightarrow>
         fold (\<lambda>i disps. disps[i := (if i > 0 then int_add (disps ! (i - 1)) (count ! (i - 1)) else 0)])
           [0..<m] (replicate (length count) 0) ! i = sum_list (take i count)"
proof (induction m arbitrary: i)
  case 0
  then show ?case by simp
next
  case (Suc m)
  let ?step = "\<lambda>i disps. disps[i := (if i > 0 then int_add (disps ! (i - 1)) (count ! (i - 1)) else 0)]"
  let ?ds = "fold ?step [0..<m] (replicate (length count) 0)"
  have len: "length ?ds = length count"
    by (induction m) simp_all
  have m: "m < length count" using Suc.prems by simp
  show ?case
  proof (cases "i = m")
    case False
    with Suc.prems have "i < m" by simp
    with Suc.IH [of i] m False len show ?thesis by simp
  next
    case True
    show ?thesis
    proof (cases m)
      case 0
      with True m len show ?thesis by simp
    next
      case (Suc k)
      have prev: "?ds ! k = sum_list (take k count)"
        using Suc.IH [of k] m Suc by simp
      have "take (Suc k) count = take k count @ [count ! k]"
        using m Suc by (simp add: take_Suc_conv_app_nth)
      then have sum: "sum_list (take (Suc k) count) = sum_list (take k count) + count ! k"
        by simp
      have "int_add (sum_list (take k count)) (count ! k) = sum_list (take (Suc k) count)"
        unfolding int_add_def sum [symmetric]
        using range [of "Suc k"] m Suc by (intro wrap32_in_range) simp_all
      with True m len Suc prev show ?thesis by simp
    qed
  qed
qed

lemma displacements_eq_prefix_sum:
  assumes "\<And>i. i \<le> length count \<Longrightarrow>
             - (2 ^ 31) \<le> sum_list (take i count) \<and> sum_list (take i count) < 2 ^ 31"
  shows "displacements (length count) count = exclusive_prefix_sum 0 count"
proof (rule nth_equalityI)
  show "length (displacements (length count) count) = length (exclusive_prefix_sum 0 count)"
    by simp
next
  fix i assume "i < length (displacements (length count) count)"
  then have i: "i < length count" by simp
  then show "displacements (length count) count ! i = exclusive_prefix_sum 0 count ! i"
    using displacements_prefix [OF assms, of "length count" i]
    by (simp add: displacements_def exclusive_prefix_sum_nth)
qed


lemma sum_list_take_bounds:
  fixes cs :: "int list"
  assumes "\<And>c. c \<in> set cs \<Longrightarrow> 0 \<le> c"
  shows "0 \<le> sum_list (take i cs)" and "sum_list (take i cs) \<le> sum_list cs"
proof -
  have "0 \<le> sum_list (take i cs)"
    using assms by (intro sum_list_nonneg) (auto dest: in_set_takeD)
  moreover have "0 \<le> sum_list (drop i cs)"
    using assms by (intro sum_list_nonneg) (auto dest: in_set_dropD)
  moreover have "sum_list cs = sum_list (take i cs) + sum_list (drop i cs)"
    by (metis append_take_drop_id sum_list.append)
  ultimately show "0 \<le> sum_list (take i cs)" and "sum_list (take i cs) \<le> sum_list cs"
    by simp_all
qed

lemma sum_list_lengths: "sum_list (map (int \<circ> length) vecs) = int (length (concat vecs))"
  by (induction vecs) simp_all

lemma length_concat_sum: "length (concat vecs) = sum_list (map length vecs)"
  by (induction vecs) simp_all

lemma length_le_concat: "v \<in> set vecs \<Longrightarrow> length v \<le> length (concat vecs)"
  by (induction vecs) auto

lemma counts_at_root:
  assumes "length (concat vecs) < 2 ^ 31"
  shows "map (int_of_size \<circ> length) vecs = map (int \<circ> length) vecs"
proof -
  have "int_of_size (length v) = int (length v)" if "v \<in> set vecs" for v
    using length_le_concat [OF that] assms by (intro int_of_size_small) simp
  then show ?thesis by simp
qed

lemma displacements_of_lengths:
  assumes "length (concat vecs) < 2 ^ 31" and "length vecs = n"
  shows "displacements n (map (int \<circ> length) vecs)
           = exclusive_prefix_sum 0 (map (int \<circ> length) vecs)"
proof -
  let ?count = "map (int \<circ> length) vecs"
  have "- (2 ^ 31) \<le> sum_list (take i ?count) \<and> sum_list (take i ?count) < 2 ^ 31" for i
  proof -
    have nonneg: "0 \<le> c" if "c \<in> set ?count" for c using that by auto
    have "sum_list (take i ?count) \<le> int (length (concat vecs))"
      using sum_list_take_bounds(2) [of ?count i] nonneg by (simp add: sum_list_lengths)
    moreover have "0 \<le> sum_list (take i ?count)"
      using sum_list_take_bounds(1) [of ?count i] nonneg by simp
    ultimately show ?thesis using assms(1) by simp
  qed
  then have "displacements (length ?count) ?count = exclusive_prefix_sum 0 ?count"
    by (intro displacements_eq_prefix_sum) simp
  with assms(2) show ?thesis by simp
qed

lemma total_size_of_lengths:
  assumes "length (concat vecs) < 2 ^ 31" and "length vecs = n" and "vecs \<noteq> []"
  shows "total_size n (exclusive_prefix_sum 0 (map (int \<circ> length) vecs)) (map (int \<circ> length) vecs)
           = Inr (int (length (concat vecs)))"
proof -
  let ?count = "map (int \<circ> length) vecs"
  from assms have n: "0 < n" "n - 1 < length ?count" by auto
  have "take (Suc (n - 1)) ?count = take (n - 1) ?count @ [?count ! (n - 1)]"
    using n(2) by (rule take_Suc_conv_app_nth)
  moreover have "take (Suc (n - 1)) ?count = ?count"
    using assms(2) n(1) by simp
  ultimately have "sum_list ?count = sum_list (take (n - 1) ?count) + ?count ! (n - 1)"
    by (metis sum_list.append sum_list.Cons sum_list.Nil add.right_neutral)
  then have "sum_list (take (n - 1) ?count) + ?count ! (n - 1) = int (length (concat vecs))"
    by (simp add: sum_list_lengths)
  then have "int_add (exclusive_prefix_sum 0 ?count ! (n - 1)) (?count ! (n - 1))
               = int (length (concat vecs))"
    using n(2) assms(1) by (simp add: int_add_def exclusive_prefix_sum_nth wrap32_in_range)
  with n(1) show ?thesis by (simp add: total_size_def)
qed

lemma gatherv_at_root_concat:
  "length rest = length (concat bufs) \<Longrightarrow>
   gatherv_at_root
     (zip bufs (zip (map (int \<circ> length) bufs)
                    (exclusive_prefix_sum (int (length received)) (map (int \<circ> length) bufs))))
     (received @ rest)
   = Inr (received @ concat bufs)"
proof (induction bufs arbitrary: received rest)
  case Nil
  then show ?case by simp
next
  case (Cons b bs)
  have recv: "receive_at b (int (length b)) (int (length received)) (received @ rest)
                = Inr ((received @ b) @ drop (length b) rest)"
    using Cons.prems by (simp add: receive_at_def)
  have "length (drop (length b) rest) = length (concat bs)"
    using Cons.prems by simp
  from Cons.IH [OF this, of "received @ b"] recv show ?case
    by (simp add: and_then_def)
qed

lemma gatherv_concat:
  "pg_gatherv 0 vecs (replicate (length (concat vecs)) 0) (map (int \<circ> length) vecs)
     (exclusive_prefix_sum 0 (map (int \<circ> length) vecs))
   = Inr (concat vecs)"
  using gatherv_at_root_concat [of "replicate (length (concat vecs)) 0" vecs "[]"]
  by (simp add: pg_gatherv_def)

lemma allocate_of_lengths:
  assumes "length (concat vecs) < 2 ^ 31" and "length vecs = n" and "vecs \<noteq> []"
  shows "allocate_at_root 0 n (exclusive_prefix_sum 0 (map (int \<circ> length) vecs))
           (map (int \<circ> length) vecs)
           = Inr (replicate (length (concat vecs)) 0)"
  by (simp add: allocate_at_root_def total_size_of_lengths [OF assms] and_then_def resize_def)

text \<open>C7, amended: in a group of \<open>P \<ge> 1\<close> processes whose local vectors have, for each of the
  three vectors, a total length below \<open>2^31\<close> (lengths of zero included), the displacements
  computed on the coordinator are the exclusive prefix sums of the lengths in rank order,
  and before the \<^verbatim>\<open>EXPECTS\<close> each global vector on the coordinator is the concatenation
  of the local vectors in ascending rank order, each in its own order; its length is the
  sum of the local lengths.\<close>

theorem gather_concatenates_in_rank_order:
  assumes "locals \<noteq> []"
    and "sum_list (map (length \<circ> fst) locals) < 2 ^ 31"
    and "sum_list (map (length \<circ> fst \<circ> snd) locals) < 2 ^ 31"
    and "sum_list (map (length \<circ> snd \<circ> snd) locals) < 2 ^ 31"
  shows "displacements (length locals)
           (pg_gather 0 (map (int_of_size \<circ> length) (map fst locals)) (replicate (length locals) 0))
           = exclusive_prefix_sum 0 (map (int \<circ> length \<circ> fst) locals)
       \<and> displacements (length locals)
           (pg_gather 0 (map (int_of_size \<circ> length) (map (fst \<circ> snd) locals))
              (replicate (length locals) 0))
           = exclusive_prefix_sum 0 (map (int \<circ> length \<circ> fst \<circ> snd) locals)
       \<and> displacements (length locals)
           (pg_gather 0 (map (int_of_size \<circ> length) (map (snd \<circ> snd) locals))
              (replicate (length locals) 0))
           = exclusive_prefix_sum 0 (map (int \<circ> length \<circ> snd \<circ> snd) locals)
       \<and> gathered 0 locals
           = Inr (concat (map fst locals), concat (map (fst \<circ> snd) locals),
                  concat (map (snd \<circ> snd) locals))
       \<and> length (concat (map fst locals)) = sum_list (map (length \<circ> fst) locals)
       \<and> length (concat (map (fst \<circ> snd) locals)) = sum_list (map (length \<circ> fst \<circ> snd) locals)
       \<and> length (concat (map (snd \<circ> snd) locals)) = sum_list (map (length \<circ> snd \<circ> snd) locals)"
proof -
  let ?s1 = "map fst locals" and ?s2 = "map (fst \<circ> snd) locals"
    and ?nt = "map (snd \<circ> snd) locals"
  have small: "length (concat ?s1) < 2 ^ 31" "length (concat ?s2) < 2 ^ 31"
    "length (concat ?nt) < 2 ^ 31"
    using assms(2-4) by (simp_all add: length_concat_sum o_def)
  have ne: "?s1 \<noteq> []" "?s2 \<noteq> []" "?nt \<noteq> []"
    using assms(1) by simp_all
  have len: "length ?s1 = length locals" "length ?s2 = length locals"
    "length ?nt = length locals"
    by simp_all
  have count: "pg_gather 0 (map (int_of_size \<circ> length) ?s1) (replicate (length locals) 0)
                 = map (int \<circ> length) ?s1"
    "pg_gather 0 (map (int_of_size \<circ> length) ?s2) (replicate (length locals) 0)
                 = map (int \<circ> length) ?s2"
    "pg_gather 0 (map (int_of_size \<circ> length) ?nt) (replicate (length locals) 0)
                 = map (int \<circ> length) ?nt"
    by (simp_all only: pg_gather_def refl if_True counts_at_root [OF small(1)]
        counts_at_root [OF small(2)] counts_at_root [OF small(3)])
  note disps = displacements_of_lengths [OF small(1) len(1)]
    displacements_of_lengths [OF small(2) len(2)]
    displacements_of_lengths [OF small(3) len(3)]
  note alloc = allocate_of_lengths [OF small(1) len(1) ne(1)]
    allocate_of_lengths [OF small(2) len(2) ne(2)]
    allocate_of_lengths [OF small(3) len(3) ne(3)]
  have g: "gathered 0 locals = Inr (concat ?s1, concat ?s2, concat ?nt)"
    unfolding gathered_def Let_def count disps alloc
    by (simp only: and_then_def sum.case gatherv_concat)
  have d: "displacements (length locals) (map (int \<circ> length) ?s1)
             = exclusive_prefix_sum 0 (map (int \<circ> length \<circ> fst) locals)"
    "displacements (length locals) (map (int \<circ> length) ?s2)
             = exclusive_prefix_sum 0 (map (int \<circ> length \<circ> fst \<circ> snd) locals)"
    "displacements (length locals) (map (int \<circ> length) ?nt)
             = exclusive_prefix_sum 0 (map (int \<circ> length \<circ> snd \<circ> snd) locals)"
    unfolding disps by (simp_all add: o_def)
  show ?thesis
    unfolding count d g by (simp add: length_concat_sum o_def)
qed


text \<open>The statement for three processes whose vectors have the lengths 2, 0 and 3.\<close>

theorem gather_concatenates_in_rank_order_witness:
  "[([1, 2], [3, 4], [5, 6]), ([], [], []), ([7, 8, 9], [10, 11, 12], [13, 14, 15 :: int])] \<noteq> []
   \<and> sum_list (map (length \<circ> fst)
        [([1, 2], [3, 4], [5, 6]), ([], [], []), ([7, 8, 9], [10, 11, 12], [13, 14, 15 :: int])])
       < 2 ^ 31
   \<and> displacements 3
         (pg_gather 0
            (map (int_of_size \<circ> length)
               (map fst [([1, 2], [3, 4], [5, 6]), ([], [], []),
                         ([7, 8, 9], [10, 11, 12], [13, 14, 15 :: int])]))
            (replicate 3 0))
       = [0, 2, 2]
   \<and> gathered 0 [([1, 2], [3, 4], [5, 6]), ([], [], []), ([7, 8, 9], [10, 11, 12], [13, 14, 15])]
       = Inr ([1, 2, 7, 8, 9], [3, 4, 10, 11, 12], [5, 6, 13, 14, 15])"
  using gather_concatenates_in_rank_order
    [of "[([1, 2], [3, 4], [5, 6]), ([], [], []), ([7, 8, 9], [10, 11, 12], [13, 14, 15])]"]
  by (simp add: numeral_3_eq_3)

lemma overflow_two_ranks:
  assumes "length a = 2 ^ 30" and "length b = 2 ^ 30"
  shows "gathered 0 [(a, a2, a3), (b, b2, b3)] = Inl LengthError"
  using assms
  by (simp add: gathered_def Let_def pg_gather_def int_of_size_def wrap32_def displacements_def
      allocate_at_root_def total_size_def int_add_def resize_def and_then_def)

text \<open>C7 as stated fails for two processes that each pass vectors of \<open>2^30\<close> elements: the
  total \<open>2^31\<close> does not fit the \<^verbatim>\<open>int\<close> in which line 388 adds the last displacement and
  the last count, the sum is negative, and \<^verbatim>\<open>resize\<close> throws; the coordinator has no
  global vector.\<close>

theorem total_two_to_31_counterexample:
  "sum_list (map (length \<circ> fst)
     [(replicate (2 ^ 30) 0, replicate (2 ^ 30) 0, replicate (2 ^ 30) 0),
      (replicate (2 ^ 30) 0, replicate (2 ^ 30) 0, replicate (2 ^ 30) (0::int))]) = 2 ^ 31
   \<and> gathered 0
       [(replicate (2 ^ 30) 0, replicate (2 ^ 30) 0, replicate (2 ^ 30) 0),
        (replicate (2 ^ 30) 0, replicate (2 ^ 30) 0, replicate (2 ^ 30) 0)]
       = Inl LengthError
   \<and> gather_task_vectors 0
       [(replicate (2 ^ 30) 0, replicate (2 ^ 30) 0, replicate (2 ^ 30) 0),
        (replicate (2 ^ 30) 0, replicate (2 ^ 30) 0, replicate (2 ^ 30) 0)]
       = Inl LengthError"
proof -
  have len: "length (replicate (2 ^ 30) (0::int)) = 2 ^ 30"
    by (rule length_replicate)
  have "sum_list (map (length \<circ> fst)
     [(replicate (2 ^ 30) 0, replicate (2 ^ 30) 0, replicate (2 ^ 30) 0),
      (replicate (2 ^ 30) 0, replicate (2 ^ 30) 0, replicate (2 ^ 30) (0::int))]) = 2 ^ 31"
    by (simp only: list.map o_apply fst_conv len sum_list.Cons sum_list.Nil) simp
  with overflow_two_ranks [OF len len] show ?thesis
    by (simp only: gather_task_vectors_def and_then_def sum.case simp_thms)
qed

lemma gatherv_at_root_error: "gatherv_at_root xs recvbuf = Inl e \<Longrightarrow> e = ErroneousGatherv"
proof (induction xs arbitrary: recvbuf)
  case Nil
  then show ?case by simp
next
  case (Cons x xs)
  obtain sendbuf count disp where x: "x = (sendbuf, count, disp)"
    by (cases x) auto
  from Cons show ?case
    unfolding x by (auto simp: and_then_def receive_at_def split: sum.splits if_splits)
qed

lemma pg_gatherv_error:
  "pg_gatherv rank sendbufs recvbuf counts disps = Inl e \<Longrightarrow> e = ErroneousGatherv"
  by (auto simp: pg_gatherv_def split: if_splits dest: gatherv_at_root_error)

lemma allocate_at_root_error:
  "allocate_at_root rank nranks disps count = Inl e \<Longrightarrow> e = IndexOutOfRange \<or> e = LengthError"
  by (auto simp: allocate_at_root_def and_then_def total_size_def resize_def
      split: if_splits sum.splits)

lemma gathered_error: "gathered rank locals = Inl e \<Longrightarrow> e \<noteq> ExpectsFailed"
  unfolding gathered_def Let_def and_then_def
  by (auto split: sum.splits dest!: allocate_at_root_error pg_gatherv_error)

text \<open>C8: on any rank, the call fails in an \<^verbatim>\<open>EXPECTS\<close> exactly when the gathers have completed
  with three vectors that do not all have the same length; when they have the same
  length the call returns them; and whatever triple the call returns has three equal
  lengths and is the triple the gathers produced.\<close>

theorem expects_fails_iff_lengths_differ:
  "(gather_task_vectors rank locals = Inl ExpectsFailed \<longleftrightarrow>
      (\<exists>s1_all s2_all ntasks_all.
          gathered rank locals = Inr (s1_all, s2_all, ntasks_all)
          \<and> \<not> (length s1_all = length s2_all \<and> length s1_all = length ntasks_all)))
   \<and> (\<forall>s1_all s2_all ntasks_all.
          gathered rank locals = Inr (s1_all, s2_all, ntasks_all)
          \<and> length s1_all = length s2_all \<and> length s1_all = length ntasks_all
          \<longrightarrow> gather_task_vectors rank locals = Inr (s1_all, s2_all, ntasks_all))
   \<and> (\<forall>s1_all s2_all ntasks_all.
          gather_task_vectors rank locals = Inr (s1_all, s2_all, ntasks_all)
          \<longrightarrow> length s1_all = length s2_all \<and> length s2_all = length ntasks_all
              \<and> gathered rank locals = Inr (s1_all, s2_all, ntasks_all))"
proof (cases "gathered rank locals")
  case (Inl e)
  with gathered_error [of rank locals e] show ?thesis
    by (simp add: gather_task_vectors_def and_then_def)
next
  case (Inr t)
  obtain a b c where t: "t = (a, b, c)" by (cases t) auto
  show ?thesis
    unfolding gather_task_vectors_def Inr t
    by (auto simp: and_then_def EXPECTS_def)
qed

text \<open>The statement in one process, for local vectors of the lengths 2, 1, 2 (the check
  fails) and 2, 2, 2 (the vectors are returned).\<close>

theorem expects_fails_iff_lengths_differ_witness:
  "gathered 0 [([1, 2], [3], [5, 6])] = Inr ([1, 2], [3], [5, 6])
   \<and> gather_task_vectors 0 [([1, 2], [3], [5, 6])] = Inl ExpectsFailed
   \<and> gathered 0 [([1, 2], [3, 4], [5, 6])] = Inr ([1, 2], [3, 4], [5, 6])
   \<and> gather_task_vectors 0 [([1, 2], [3, 4], [5, 6])] = Inr ([1, 2], [3, 4], [5, 6])"
proof -
  have g1: "gathered 0 [([1, 2], [3], [5, 6])] = Inr ([1, 2], [3], [5, 6])"
    by (simp add: gathered_def Let_def pg_gather_def int_of_size_def wrap32_def displacements_def
        allocate_at_root_def total_size_def int_add_def resize_def and_then_def pg_gatherv_def
        receive_at_def)
  have g2: "gathered 0 [([1, 2], [3, 4], [5, 6])] = Inr ([1, 2], [3, 4], [5, 6])"
    by (simp add: gathered_def Let_def pg_gather_def int_of_size_def wrap32_def displacements_def
        allocate_at_root_def total_size_def int_add_def resize_def and_then_def pg_gatherv_def
        receive_at_def)
  note fails = expects_fails_iff_lengths_differ
    [of 0 "[([1, 2], [3], [5, 6])]", THEN conjunct1, THEN iffD2]
  note passes = expects_fails_iff_lengths_differ
    [of 0 "[([1, 2], [3, 4], [5, 6])]", THEN conjunct2, THEN conjunct1, rule_format,
     of "[1, 2]" "[3, 4]" "[5, 6]"]
  have "\<exists>s1_all s2_all ntasks_all.
          gathered 0 [([1, 2], [3], [5, 6])] = Inr (s1_all, s2_all, ntasks_all)
          \<and> \<not> (length s1_all = length s2_all \<and> length s1_all = length ntasks_all)"
    unfolding g1 by (intro exI [of _ "[1, 2]"] exI [of _ "[3]"] exI [of _ "[5, 6]"]) simp
  then have f: "gather_task_vectors 0 [([1, 2], [3], [5, 6])] = Inl ExpectsFailed"
    by (rule fails)
  have "gathered 0 [([1, 2], [3, 4], [5, 6])] = Inr ([1, 2], [3, 4], [5, 6])
        \<and> length [1, 2 :: int] = length [3, 4 :: int]
        \<and> length [1, 2 :: int] = length [5, 6 :: int]"
    unfolding g2 by simp
  then have p: "gather_task_vectors 0 [([1, 2], [3, 4], [5, 6])] = Inr ([1, 2], [3, 4], [5, 6])"
    by (rule passes)
  from g1 g2 f p show ?thesis by (intro conjI)
qed



end
